theory Spec2Isabelle
  imports Complex_Main "HOL-Library.Sublist"
begin

section \<open>Strings, bytes and the library functions the matcher calls\<close>

text \<open>
  A Go \<open>string\<close> is a sequence of bytes; it is modelled as a \<^typ>\<open>string\<close>
  (a list of 8-bit characters). The standard-library functions that \<open>findKeywords\<close>
  calls are modelled on bytes: case mapping is the ASCII one (\<open>A\<close>..\<open>Z\<close> to
  \<open>a\<close>..\<open>z\<close>, every other byte unchanged), which is what \<open>strings.ToLower\<close> and
  the \<open>(?i)\<close> flag do on ASCII text; the word class of \<open>\b\<close> is Go's ASCII class
  \<open>[0-9A-Za-z_]\<close>; \<open>regexp.Compile\<close> rejects a pattern that is not valid UTF-8.
  Bytes from \<open>0x80\<close> on are compared as they are: the case mapping that Go applies
  to letters outside ASCII is outside the model.
\<close>

definition byte :: "char \<Rightarrow> nat" where
  "byte c = of_char c"

definition toLowerByte :: "char \<Rightarrow> char" where
  "toLowerByte c = (if 65 \<le> byte c \<and> byte c \<le> 90 then char_of (byte c + 32) else c)"

definition strings_ToLower :: "string \<Rightarrow> string" where
  "strings_ToLower s = map toLowerByte s"

definition isWordChar :: "char \<Rightarrow> bool" where
  "isWordChar c =
     ((65 \<le> byte c \<and> byte c \<le> 90) \<or> (97 \<le> byte c \<and> byte c \<le> 122)
      \<or> (48 \<le> byte c \<and> byte c \<le> 57) \<or> byte c = 95)"

definition backslash :: char where
  "backslash = CHR 0x5C"

definition specialBytes :: string where
  "specialBytes = backslash # ''.+*?()|[]{}^$''"

text \<open>\<open>regexp.QuoteMeta\<close>: a backslash goes before every byte of \<open>\.+*?()|[]{}^$\<close>.\<close>

fun regexp_QuoteMeta :: "string \<Rightarrow> string" where
  "regexp_QuoteMeta [] = []"
| "regexp_QuoteMeta (c # s) =
     (if c \<in> set specialBytes then backslash # c # regexp_QuoteMeta s
      else c # regexp_QuoteMeta s)"

text \<open>
  The UTF-8 check of \<open>regexp.Compile\<close>: the parser reads the pattern rune by rune
  with \<open>utf8.DecodeRuneInString\<close> and fails at the first byte that does not start a
  well-formed encoding. (The parser's limit on the size of a pattern is left out.)
\<close>

definition contByte :: "nat \<Rightarrow> nat \<Rightarrow> char \<Rightarrow> bool" where
  "contByte lo hi c = (lo \<le> byte c \<and> byte c \<le> hi)"

fun checkUTF8 :: "string \<Rightarrow> bool" where
  "checkUTF8 [] = True"
| "checkUTF8 (a # s) =
     (if byte a < 0x80 then checkUTF8 s
      else if 0xC2 \<le> byte a \<and> byte a \<le> 0xDF then
        (case s of b # s1 \<Rightarrow> contByte 0x80 0xBF b \<and> checkUTF8 s1 | _ \<Rightarrow> False)
      else if 0xE0 \<le> byte a \<and> byte a \<le> 0xEF then
        (case s of
           b # c # s2 \<Rightarrow>
             contByte (if byte a = 0xE0 then 0xA0 else 0x80)
                    (if byte a = 0xED then 0x9F else 0xBF) b
             \<and> contByte 0x80 0xBF c \<and> checkUTF8 s2
         | _ \<Rightarrow> False)
      else if 0xF0 \<le> byte a \<and> byte a \<le> 0xF4 then
        (case s of
           b # c # d # s3 \<Rightarrow>
             contByte (if byte a = 0xF0 then 0x90 else 0x80)
                    (if byte a = 0xF4 then 0x8F else 0xBF) b
             \<and> contByte 0x80 0xBF c \<and> contByte 0x80 0xBF d \<and> checkUTF8 s3
         | _ \<Rightarrow> False)
      else False)"

subsection \<open>The compiled pattern\<close>

text \<open>
  The patterns \<open>findKeywords\<close> builds are \<open>(?i)\b\<close>, a quoted literal, \<open>\b\<close>.
  A compiled pattern is therefore a case-folding flag and a sequence of two kinds of
  instruction: the empty-width word-boundary assertion and a one-byte literal.
  \<open>regexp_Compile\<close> parses exactly this fragment of the syntax; on anything else
  (an unescaped operator, an escape other than \<open>\b\<close> or an escaped punctuation byte)
  it answers \<open>ErrUnsupported\<close>, which lemma \<open>parseItems_QuoteMeta\<close> shows is never
  reached from \<open>findKeywords\<close>.
\<close>

datatype Inst = WordBoundary | Lit char

datatype Regexp = Regexp (foldCase: bool) (prog: "Inst list")

datatype compile_error = ErrInvalidUTF8 | ErrUnsupported

definition isAlnum :: "char \<Rightarrow> bool" where
  "isAlnum c =
     ((65 \<le> byte c \<and> byte c \<le> 90) \<or> (97 \<le> byte c \<and> byte c \<le> 122)
      \<or> (48 \<le> byte c \<and> byte c \<le> 57))"

fun parseItems :: "string \<Rightarrow> Inst list option" where
  "parseItems [] = Some []"
| "parseItems (a # s) =
     (if a = backslash then
        (case s of
           [] \<Rightarrow> None
         | c # s1 \<Rightarrow>
             if c = CHR ''b'' then map_option ((#) WordBoundary) (parseItems s1)
             else if byte c < 0x80 \<and> \<not> isAlnum c then map_option ((#) (Lit c)) (parseItems s1)
             else None)
      else if a \<in> set specialBytes then None
      else map_option ((#) (Lit a)) (parseItems s))"

definition regexp_Compile :: "string \<Rightarrow> compile_error + Regexp" where
  "regexp_Compile pattern =
     (if \<not> checkUTF8 pattern then Inl ErrInvalidUTF8
      else
        let fc = (take 4 pattern = ''(?i)'');
            body = (if fc then drop 4 pattern else pattern)
        in case parseItems body of
             None \<Rightarrow> Inl ErrUnsupported
           | Some insts \<Rightarrow> Inr (Regexp fc insts))"

subsection \<open>Matching\<close>

definition wordBefore :: "char option \<Rightarrow> bool" where
  "wordBefore prev = (case prev of None \<Rightarrow> False | Some c \<Rightarrow> isWordChar c)"

definition wordAfter :: "string \<Rightarrow> bool" where
  "wordAfter rest = (case rest of [] \<Rightarrow> False | c # _ \<Rightarrow> isWordChar c)"

text \<open>\<open>\b\<close>: a word byte on exactly one side; the ends of the text count as non-word.\<close>

definition atWordBoundary :: "char option \<Rightarrow> string \<Rightarrow> bool" where
  "atWordBoundary prev rest = (wordBefore prev \<noteq> wordAfter rest)"

definition litMatches :: "bool \<Rightarrow> char \<Rightarrow> char \<Rightarrow> bool" where
  "litMatches fc c d = (if fc then toLowerByte c = toLowerByte d else c = d)"

text \<open>
  \<open>runAt fc insts prev rest\<close>: the instructions match at the current position, where
  \<open>prev\<close> is the byte before it (if any) and \<open>rest\<close> the text from it on.
\<close>

fun runAt :: "bool \<Rightarrow> Inst list \<Rightarrow> char option \<Rightarrow> string \<Rightarrow> bool" where
  "runAt fc [] prev rest = True"
| "runAt fc (WordBoundary # insts) prev rest =
     (atWordBoundary prev rest \<and> runAt fc insts prev rest)"
| "runAt fc (Lit c # insts) prev [] = False"
| "runAt fc (Lit c # insts) prev (d # rest) =
     (litMatches fc c d \<and> runAt fc insts (Some d) rest)"

text \<open>An unanchored search tries every start position, left to right.\<close>

fun searchFrom :: "bool \<Rightarrow> Inst list \<Rightarrow> char option \<Rightarrow> string \<Rightarrow> bool" where
  "searchFrom fc insts prev [] = runAt fc insts prev []"
| "searchFrom fc insts prev (d # rest) =
     (runAt fc insts prev (d # rest) \<or> searchFrom fc insts (Some d) rest)"

definition MatchString :: "Regexp \<Rightarrow> string \<Rightarrow> bool" where
  "MatchString re s = searchFrom (foldCase re) (prog re) None s"

section \<open>The keyword matcher\<close>

text \<open>\<open>fmt.Sprintf(`(?i)\b%s\b`, escapedKeyword)\<close>.\<close>

definition keywordPattern :: "string \<Rightarrow> string" where
  "keywordPattern escapedKeyword =
     ''(?i)'' @ [backslash, CHR ''b''] @ escapedKeyword @ [backslash, CHR ''b'']"

text \<open>
  The loop of \<open>findKeywords\<close> over the keywords, with \<open>found\<close> as the slice built so
  far: a keyword whose pattern does not compile is skipped (\<open>continue\<close>), a keyword
  whose pattern matches the lower-cased text is appended as it was given.
\<close>

fun findKeywords_loop :: "string \<Rightarrow> string list \<Rightarrow> string list \<Rightarrow> string list" where
  "findKeywords_loop textLower [] found = found"
| "findKeywords_loop textLower (keyword # rest) found =
     (let escapedKeyword = regexp_QuoteMeta keyword;
          pattern = keywordPattern escapedKeyword
      in case regexp_Compile pattern of
           Inl err \<Rightarrow> findKeywords_loop textLower rest found
         | Inr re \<Rightarrow>
             if MatchString re textLower
             then findKeywords_loop textLower rest (found @ [keyword])
             else findKeywords_loop textLower rest found)"

definition findKeywords :: "string \<Rightarrow> string list \<Rightarrow> string list" where
  "findKeywords text keywords = findKeywords_loop (strings_ToLower text) keywords []"

subsection \<open>Whole-word occurrence, as the specification words it\<close>

text \<open>
  The specification's reading of the matcher, written independently of the regular
  expression: a keyword matches a text when, compared case-insensitively, it occurs
  at some offset with a word boundary at both of its ends. \<open>keywordMatches\<close> adds the
  one way a keyword's pattern can fail to compile.
\<close>

definition wordAtEnd :: "string \<Rightarrow> bool" where
  "wordAtEnd xs = (xs \<noteq> [] \<and> isWordChar (last xs))"

definition boundaryBetween :: "string \<Rightarrow> string \<Rightarrow> bool" where
  "boundaryBetween xs ys = (wordAtEnd xs \<noteq> wordAfter ys)"

definition equalFold :: "string \<Rightarrow> string \<Rightarrow> bool" where
  "equalFold xs ys = (map toLowerByte xs = map toLowerByte ys)"

definition wholeWordAt :: "string \<Rightarrow> string \<Rightarrow> nat \<Rightarrow> bool" where
  "wholeWordAt kw text i =
     (equalFold (take (length kw) (drop i text)) kw
      \<and> boundaryBetween (take i text) (drop i text)
      \<and> boundaryBetween (take (i + length kw) text) (drop (i + length kw) text))"

definition occursAsWholeWord :: "string \<Rightarrow> string \<Rightarrow> bool" where
  "occursAsWholeWord kw text = (\<exists>i \<in> set [0..<Suc (length text)]. wholeWordAt kw text i)"

text \<open>
  The occurrence of \<open>kw\<close> at offset \<open>i\<close> cuts a word of the text: a word byte at one
  end of the keyword has a word byte of the text next to it outside the occurrence, so
  that the keyword's word is a proper part of a longer word of the text.
\<close>

definition cutsWord :: "string \<Rightarrow> string \<Rightarrow> nat \<Rightarrow> bool" where
  "cutsWord kw text i =
     (kw \<noteq> [] \<and>
      ((isWordChar (hd kw) \<and> wordAtEnd (take i text))
       \<or> (isWordChar (last kw) \<and> wordAfter (drop (i + length kw) text))))"

definition keywordMatches :: "string \<Rightarrow> string \<Rightarrow> bool" where
  "keywordMatches text kw = (checkUTF8 kw \<and> occursAsWholeWord kw text)"

definition lastOr :: "char option \<Rightarrow> string \<Rightarrow> char option" where
  "lastOr prev xs = (if xs = [] then prev else Some (last xs))"

section \<open>Items, configuration and the outside world\<close>

text \<open>
  \<open>CreatedUtc\<close> is a \<open>float64\<close> that the program only carries along; it is kept as
  a real number and takes part in no computation.
\<close>

record Post =
  Title :: string
  Selftext :: string
  Permalink :: string
  CreatedUtc :: real
  Subreddit :: string

record Comment =
  Body :: string
  CommentPermalink :: string
  CommentCreatedUtc :: real
  CommentSubreddit :: string

text \<open>\<open>PostResponse\<close> and \<open>CommentResponse\<close>: \<open>Data.Children[i].Data\<close>.\<close>

record PostChild =
  PostChildData :: Post

record PostListing =
  PostChildren :: "PostChild list"

record PostResponse =
  PostData :: PostListing

record CommentChild =
  CommentChildData :: Comment

record CommentListing =
  CommentChildren :: "CommentChild list"

record CommentResponse =
  CommentData :: CommentListing

fun strings_Join :: "string list \<Rightarrow> string \<Rightarrow> string" where
  "strings_Join [] sep = []"
| "strings_Join [x] sep = x"
| "strings_Join (x # y # xs) sep = x @ sep @ strings_Join (y # xs) sep"

definition subreddits :: "string list" where
  "subreddits = [''WholesaleRealestate'', ''WholesalingHouses'', ''realestateinvesting'',
                 ''RealEstateTechnology'']"

text \<open>The global \<open>keywords\<close> of the program.\<close>

definition keywords_list :: "string list" where
  "keywords_list = [''VA'', ''leads'']"

definition combinedSubreddits :: string where
  "combinedSubreddits = strings_Join subreddits ''+''"

definition postEndpoint :: string where
  "postEndpoint = ''https://www.reddit.com/r/'' @ combinedSubreddits @ ''/new/.json?limit=100''"

definition commentEndpoint :: string where
  "commentEndpoint =
     ''https://www.reddit.com/r/'' @ combinedSubreddits @ ''/comments/.json?limit=100''"

text \<open>The four environment variables read at start-up.\<close>

record config =
  gmailUser :: string
  gmailAppPassword :: string
  recipientEmail :: string
  mongoURI :: string

definition StatusOK :: nat where
  "StatusOK = 200"

datatype http_result = NewRequestError | DoError | Response nat string

datatype fetch_error =
  ErrCreatingRequest | ErrExecutingRequest | ErrUnexpectedStatus nat | ErrDecodingJSON

datatype find_result = Found | ErrNoDocuments | FindError

datatype insert_result = Inserted | DuplicateKeyError | InsertError

datatype send_error = FailedToSendEmail

text \<open>Every line the program prints, by the place that prints it.\<close>

datatype log_line =
    Starting
  | FatalEmailVariables
  | FatalMongoURI
  | FatalConnect
  | FatalPing
  | ConnectedToMongoDB
  | ConfigurationBanner
  | FetchingNewData
  | ErrorFetchingPosts fetch_error
  | ErrorFetchingComments fetch_error
  | ErrorCheckingPost string
  | ErrorCheckingComment string
  | FoundKeywordsInPost "string list" string string
  | FoundKeywordsInComment "string list" string string
  | EmailSentSuccessfully
  | ErrorSendingPostEmail send_error
  | ErrorSendingCommentEmail send_error
  | InfoDuplicatePermalink string
  | ErrorInsertingPost string
  | ErrorInsertingComment string

text \<open>
  What an observer of the process sees, in order: the calls to the store, the matcher
  and the mail transport with their outcomes, the HTTP exchanges, the printed lines and
  the sleeps. \<open>SendMail\<close> carries, before the subject and body that \<open>sendEmail\<close> is
  given, the permalink of the item the call is made for.
\<close>

datatype event =
    HttpExchange string http_result
  | FindOneCall string find_result
  | MatchCall string "string list"
  | SendMail string string string bool
  | InsertOneCall string insert_result
  | Print log_line
  | Sleep

text \<open>
  The behaviour of everything outside the process. The outcome of an external call is
  a function of the number of external calls made before it, so any sequence of
  failures and successes is some environment. \<open>decodePosts\<close> and \<open>decodeComments\<close>
  stand for \<open>json.Decoder.Decode\<close> into the two response types (\<open>None\<close>: the decoder
  returns an error).
\<close>

record env =
  httpDo :: "nat \<Rightarrow> string \<Rightarrow> http_result"
  decodePosts :: "string \<Rightarrow> PostResponse option"
  decodeComments :: "string \<Rightarrow> CommentResponse option"
  findFails :: "nat \<Rightarrow> bool"
  sendFails :: "nat \<Rightarrow> bool"
  insertFails :: "nat \<Rightarrow> bool"
  connectFails :: "nat \<Rightarrow> bool"
  pingFails :: "nat \<Rightarrow> bool"

text \<open>
  \<open>db\<close> is the \<open>processed_items\<close> collection, as the list of the permalinks of its
  documents in insertion order; it carries the unique index on \<open>permalink\<close> that
  \<open>setupMongoIndex\<close> asks for. The collection lives in the database server, not in the
  process: it is the only state that a restart of the process keeps.
\<close>

record world =
  db :: "string list"
  trace :: "event list"
  calls :: nat

definition emit :: "event \<Rightarrow> world \<Rightarrow> world" where
  "emit e w = w\<lparr>trace := trace w @ [e]\<rparr>"

definition called :: "world \<Rightarrow> world" where
  "called w = w\<lparr>calls := Suc (calls w)\<rparr>"

section \<open>The store and the notifier\<close>

text \<open>
  \<open>processedItemsCollection.FindOne(ctx, {"permalink": p}).Decode(&result)\<close>:
  \<open>nil\<close> when a document is found, \<open>mongo.ErrNoDocuments\<close> when none is, any other
  error when the query fails (time-out, connection loss).
\<close>

definition FindOne :: "env \<Rightarrow> world \<Rightarrow> string \<Rightarrow> find_result \<times> world" where
  "FindOne E w permalink =
     (let r = (if findFails E (calls w) then FindError
               else if permalink \<in> set (db w) then Found else ErrNoDocuments)
      in (r, called (emit (FindOneCall permalink r) w)))"

text \<open>\<open>processedItemsCollection.InsertOne(ctx, {"permalink": p, "processed_at": now})\<close>.\<close>

definition InsertOne :: "env \<Rightarrow> world \<Rightarrow> string \<Rightarrow> insert_result \<times> world" where
  "InsertOne E w permalink =
     (let r = (if insertFails E (calls w) then InsertError
               else if permalink \<in> set (db w) then DuplicateKeyError else Inserted);
          w1 = called (emit (InsertOneCall permalink r) w)
      in (r, if r = Inserted then w1\<lparr>db := db w1 @ [permalink]\<rparr> else w1))"

definition sendEmail ::
  "env \<Rightarrow> world \<Rightarrow> string \<Rightarrow> string \<Rightarrow> string \<Rightarrow> send_error option \<times> world" where
  "sendEmail E w item subject body =
     (if sendFails E (calls w)
      then (Some FailedToSendEmail, called (emit (SendMail item subject body False) w))
      else (None, emit (Print EmailSentSuccessfully)
                    (called (emit (SendMail item subject body True) w))))"

section \<open>Fetching\<close>

fun collectPosts :: "PostChild list \<Rightarrow> Post list \<Rightarrow> Post list" where
  "collectPosts [] posts = posts"
| "collectPosts (child # children) posts = collectPosts children (posts @ [PostChildData child])"

fun collectComments :: "CommentChild list \<Rightarrow> Comment list \<Rightarrow> Comment list" where
  "collectComments [] comments = comments"
| "collectComments (child # children) comments =
     collectComments children (comments @ [CommentChildData child])"

text \<open>
  \<open>fetchPosts\<close> returns the pair \<open>(posts, err)\<close> of the Go function; \<open>nil\<close> is the
  empty list. When the request cannot even be built no exchange takes place.
\<close>

definition fetchPosts ::
  "env \<Rightarrow> world \<Rightarrow> string \<Rightarrow> (Post list \<times> fetch_error option) \<times> world" where
  "fetchPosts E w endpoint =
     (let r = httpDo E (calls w) endpoint;
          w1 = called (emit (HttpExchange endpoint r) w)
      in case r of
           NewRequestError \<Rightarrow> (([], Some ErrCreatingRequest), emit (HttpExchange endpoint r) w)
         | DoError \<Rightarrow> (([], Some ErrExecutingRequest), w1)
         | Response status payload \<Rightarrow>
             if status \<noteq> StatusOK then (([], Some (ErrUnexpectedStatus status)), w1)
             else (case decodePosts E payload of
                     None \<Rightarrow> (([], Some ErrDecodingJSON), w1)
                   | Some response \<Rightarrow>
                       ((collectPosts (PostChildren (PostData response)) [], None), w1)))"

definition fetchComments ::
  "env \<Rightarrow> world \<Rightarrow> string \<Rightarrow> (Comment list \<times> fetch_error option) \<times> world" where
  "fetchComments E w endpoint =
     (let r = httpDo E (calls w) endpoint;
          w1 = called (emit (HttpExchange endpoint r) w)
      in case r of
           NewRequestError \<Rightarrow> (([], Some ErrCreatingRequest), emit (HttpExchange endpoint r) w)
         | DoError \<Rightarrow> (([], Some ErrExecutingRequest), w1)
         | Response status payload \<Rightarrow>
             if status \<noteq> StatusOK then (([], Some (ErrUnexpectedStatus status)), w1)
             else (case decodeComments E payload of
                     None \<Rightarrow> (([], Some ErrDecodingJSON), w1)
                   | Some response \<Rightarrow>
                       ((collectComments (CommentChildren (CommentData response)) [], None),
                        w1)))"

section \<open>Processing the fetched items\<close>

text \<open>\<open>%v\<close> of a \<open>[]string\<close>: the elements between brackets, separated by spaces.\<close>

definition fmt_v :: "string list \<Rightarrow> string" where
  "fmt_v xs = ''['' @ strings_Join xs '' '' @ '']''"

definition redditURL :: "string \<Rightarrow> string" where
  "redditURL permalink = ''https://www.reddit.com'' @ permalink"

text \<open>The block \<open>Mark as processed (MongoDB Insert)\<close> of \<open>processPosts\<close>.\<close>

definition markPostProcessed :: "env \<Rightarrow> world \<Rightarrow> string \<Rightarrow> world" where
  "markPostProcessed E w permalink =
     (case InsertOne E w permalink of
        (Inserted, w1) \<Rightarrow> w1
      | (DuplicateKeyError, w1) \<Rightarrow> emit (Print (InfoDuplicatePermalink permalink)) w1
      | (InsertError, w1) \<Rightarrow> emit (Print (ErrorInsertingPost permalink)) w1)"

definition markCommentProcessed :: "env \<Rightarrow> world \<Rightarrow> string \<Rightarrow> world" where
  "markCommentProcessed E w permalink =
     (case InsertOne E w permalink of
        (Inserted, w1) \<Rightarrow> w1
      | (DuplicateKeyError, w1) \<Rightarrow> emit (Print (InfoDuplicatePermalink permalink)) w1
      | (InsertError, w1) \<Rightarrow> emit (Print (ErrorInsertingComment permalink)) w1)"

text \<open>The body of the \<open>for\<close> loop of \<open>processPosts\<close>, for one post.\<close>

definition processPost :: "env \<Rightarrow> world \<Rightarrow> Post \<Rightarrow> world" where
  "processPost E w post =
     (case FindOne E w (Permalink post) of
        (Found, w1) \<Rightarrow> w1
      | (FindError, w1) \<Rightarrow> emit (Print (ErrorCheckingPost (Permalink post))) w1
      | (ErrNoDocuments, w1) \<Rightarrow>
          let text = Title post @ '' '' @ Selftext post;
              found = findKeywords text keywords_list;
              w2 = emit (MatchCall text found) w1
          in if length found > 0 then
               let w3 = emit (Print (FoundKeywordsInPost found (Subreddit post) (Permalink post))) w2;
                   subject = ''Reddit Keyword Alert: Post in r/'' @ Subreddit post;
                   body = ''Keywords '' @ fmt_v found @ '' found in post:'' @ [CHR 0x0A]
                          @ redditURL (Permalink post)
               in case sendEmail E w3 (Permalink post) subject body of
                    (Some err, w4) \<Rightarrow> emit (Print (ErrorSendingPostEmail err)) w4
                  | (None, w4) \<Rightarrow> markPostProcessed E w4 (Permalink post)
             else w2)"

fun processPosts :: "env \<Rightarrow> world \<Rightarrow> Post list \<Rightarrow> world" where
  "processPosts E w [] = w"
| "processPosts E w (post # posts) = processPosts E (processPost E w post) posts"

text \<open>The body of the \<open>for\<close> loop of \<open>processComments\<close>, for one comment.\<close>

definition processComment :: "env \<Rightarrow> world \<Rightarrow> Comment \<Rightarrow> world" where
  "processComment E w comment =
     (case FindOne E w (CommentPermalink comment) of
        (Found, w1) \<Rightarrow> w1
      | (FindError, w1) \<Rightarrow> emit (Print (ErrorCheckingComment (CommentPermalink comment))) w1
      | (ErrNoDocuments, w1) \<Rightarrow>
          let found = findKeywords (Body comment) keywords_list;
              w2 = emit (MatchCall (Body comment) found) w1
          in if length found > 0 then
               let w3 = emit (Print (FoundKeywordsInComment found (CommentSubreddit comment)
                                       (CommentPermalink comment))) w2;
                   subject = ''Reddit Keyword Alert: Comment in r/'' @ CommentSubreddit comment;
                   body = ''Keywords '' @ fmt_v found @ '' found in comment:'' @ [CHR 0x0A]
                          @ redditURL (CommentPermalink comment)
               in case sendEmail E w3 (CommentPermalink comment) subject body of
                    (Some err, w4) \<Rightarrow> emit (Print (ErrorSendingCommentEmail err)) w4
                  | (None, w4) \<Rightarrow> markCommentProcessed E w4 (CommentPermalink comment)
             else w2)"

fun processComments :: "env \<Rightarrow> world \<Rightarrow> Comment list \<Rightarrow> world" where
  "processComments E w [] = w"
| "processComments E w (comment # comments) =
     processComments E (processComment E w comment) comments"

section \<open>The main loop\<close>

text \<open>One iteration of the \<open>for\<close> loop of \<open>main\<close>, up to and including its sleep.\<close>

definition cycle :: "env \<Rightarrow> world \<Rightarrow> world" where
  "cycle E w =
     (let w0 = emit (Print FetchingNewData) w;
          w2 = (case fetchPosts E w0 postEndpoint of
                  ((posts, Some err), w1) \<Rightarrow> emit (Print (ErrorFetchingPosts err)) w1
                | ((posts, None), w1) \<Rightarrow> processPosts E w1 posts);
          w4 = (case fetchComments E w2 commentEndpoint of
                  ((comments, Some err), w3) \<Rightarrow> emit (Print (ErrorFetchingComments err)) w3
                | ((comments, None), w3) \<Rightarrow> processComments E w3 comments)
      in emit Sleep w4)"

text \<open>
  The loop has no exit; \<open>forLoop E n\<close> is the world after its first \<open>n\<close> iterations,
  for every \<open>n\<close>.
\<close>

fun forLoop :: "env \<Rightarrow> nat \<Rightarrow> world \<Rightarrow> world" where
  "forLoop E 0 w = w"
| "forLoop E (Suc n) w = forLoop E n (cycle E w)"

text \<open>
  \<open>main\<close> before its loop: the validation of the configuration and the connection to
  MongoDB. \<open>Some code\<close> is \<open>os.Exit(code)\<close>. The index set-up that \<open>main\<close> starts in
  the background is not part of the model.
\<close>

definition startup :: "config \<Rightarrow> env \<Rightarrow> world \<Rightarrow> nat option \<times> world" where
  "startup cfg E w =
     (let w0 = emit (Print Starting) w in
      if gmailUser cfg = [] \<or> gmailAppPassword cfg = [] \<or> recipientEmail cfg = []
      then (Some 1, emit (Print FatalEmailVariables) w0)
      else if mongoURI cfg = [] then (Some 1, emit (Print FatalMongoURI) w0)
      else if connectFails E (calls w0) then (Some 1, emit (Print FatalConnect) (called w0))
      else
        let w1 = called w0 in
        if pingFails E (calls w1) then (Some 1, emit (Print FatalPing) (called w1))
        else (None, emit (Print ConfigurationBanner)
                      (emit (Print ConnectedToMongoDB) (called w1))))"

datatype process_state = Exited nat | Looping

text \<open>\<open>main cfg E n w\<close>: the process started in world \<open>w\<close>, observed after \<open>n\<close> iterations.\<close>

definition main :: "config \<Rightarrow> env \<Rightarrow> nat \<Rightarrow> world \<Rightarrow> process_state \<times> world" where
  "main cfg E n w =
     (case startup cfg E w of
        (Some code, w1) \<Rightarrow> (Exited code, w1)
      | (None, w1) \<Rightarrow> (Looping, forLoop E n w1))"

text \<open>
  A sequence of process lifetimes over the same database: each element of the list is
  a start of the process that is stopped after that many iterations.
\<close>

fun lifetimes :: "config \<Rightarrow> env \<Rightarrow> nat list \<Rightarrow> world \<Rightarrow> world" where
  "lifetimes cfg E [] w = w"
| "lifetimes cfg E (n # ns) w = lifetimes cfg E ns (snd (main cfg E n w))"

subsection \<open>Observations on a trace\<close>

text \<open>The calls to the notifier made for an item, and the items with a delivered mail.\<close>

fun isNotifierCallFor :: "string \<Rightarrow> event \<Rightarrow> bool" where
  "isNotifierCallFor p (SendMail item subject body ok) = (item = p)"
| "isNotifierCallFor p e = False"

definition notifierCalls :: "string \<Rightarrow> event list \<Rightarrow> event list" where
  "notifierCalls p tr = filter (isNotifierCallFor p) tr"

fun deliveredItem :: "event \<Rightarrow> string list" where
  "deliveredItem (SendMail item subject body ok) = (if ok then [item] else [])"
| "deliveredItem e = []"

definition delivered :: "event list \<Rightarrow> string list" where
  "delivered tr = concat (map deliveredItem tr)"

definition sleeps :: "event list \<Rightarrow> nat" where
  "sleeps tr = length (filter (\<lambda>e. e = Sleep) tr)"

text \<open>
  Every insert into the store comes after a delivered mail for the same item:
  \<open>seen\<close> holds the items with a delivered mail so far.
\<close>

fun recordsFollowDelivery :: "string list \<Rightarrow> event list \<Rightarrow> bool" where
  "recordsFollowDelivery seen [] = True"
| "recordsFollowDelivery seen (e # es) =
     ((case e of InsertOneCall p r \<Rightarrow> p \<in> set seen | _ \<Rightarrow> True)
      \<and> recordsFollowDelivery (deliveredItem e @ seen) es)"

text \<open>The texts handed to the matcher, in order.\<close>

fun matcherInput :: "event \<Rightarrow> string list" where
  "matcherInput (MatchCall text found) = [text]"
| "matcherInput e = []"

definition matcherInputs :: "event list \<Rightarrow> string list" where
  "matcherInputs tr = concat (map matcherInput tr)"

section \<open>Concrete inputs\<close>

text \<open>
  A post and a comment that match the configured keywords, an environment in which
  every external call succeeds and both feeds return one item, a complete
  configuration, and the world with an empty store, for the worked examples below.
\<close>

definition examplePost :: Post where
  "examplePost = \<lparr>Title = ''Hiring a VA'', Selftext = '''', Permalink = ''/r/test/1'',
                   CreatedUtc = 0, Subreddit = ''test''\<rparr>"

definition exampleComment :: Comment where
  "exampleComment = \<lparr>Body = ''any leads?'', CommentPermalink = ''/r/test/1/c'',
                      CommentCreatedUtc = 0, CommentSubreddit = ''test''\<rparr>"

definition exampleEnv :: env where
  "exampleEnv =
     \<lparr>httpDo = (\<lambda>n url. Response 200 ''{}''),
      decodePosts = (\<lambda>payload. Some \<lparr>PostData = \<lparr>PostChildren = [\<lparr>PostChildData = examplePost\<rparr>]\<rparr>\<rparr>),
      decodeComments = (\<lambda>payload.
         Some \<lparr>CommentData = \<lparr>CommentChildren = [\<lparr>CommentChildData = exampleComment\<rparr>]\<rparr>\<rparr>),
      findFails = (\<lambda>n. False), sendFails = (\<lambda>n. False), insertFails = (\<lambda>n. False),
      connectFails = (\<lambda>n. False), pingFails = (\<lambda>n. False)\<rparr>"

definition exampleConfig :: config where
  "exampleConfig = \<lparr>gmailUser = ''monitor@example.org'', gmailAppPassword = ''secret'',
                     recipientEmail = ''me@example.org'', mongoURI = ''mongodb://db''\<rparr>"

definition emptyWorld :: world where
  "emptyWorld = \<lparr>db = [], trace = [], calls = 0\<rparr>"

text \<open>Environments in which one kind of external call fails.\<close>

definition insertDownEnv :: env where
  "insertDownEnv = exampleEnv\<lparr>insertFails := (\<lambda>n. True)\<rparr>"

definition findDownEnv :: env where
  "findDownEnv = exampleEnv\<lparr>findFails := (\<lambda>n. True)\<rparr>"

definition postsDownEnv :: env where
  "postsDownEnv =
     exampleEnv\<lparr>httpDo := (\<lambda>n url. if url = postEndpoint then DoError
                                   else Response 200 ''{}'')\<rparr>"

text \<open>The store after the example post has been notified and recorded.\<close>

definition recordedWorld :: world where
  "recordedWorld = processPost exampleEnv emptyWorld examplePost"


section \<open>Properties of the library functions\<close>

lemma byte_char_of: "byte (char_of (n::nat)) = n mod 256"
  by (simp add: byte_def)

lemma toLowerByte_idem: "toLowerByte (toLowerByte c) = toLowerByte c"
  by (simp add: toLowerByte_def byte_char_of)

lemma isWordChar_toLowerByte: "isWordChar (toLowerByte c) = isWordChar c"
  by (auto simp add: toLowerByte_def isWordChar_def byte_char_of)




lemma special_props:
  assumes "c \<in> set specialBytes"
  shows "c \<noteq> CHR ''b''" and "byte c < 0x80" and "\<not> isAlnum c"
  using assms by (auto simp add: specialBytes_def backslash_def byte_def isAlnum_def)

lemma backslash_special: "backslash \<in> set specialBytes"
  by (simp add: specialBytes_def)

lemma parseItems_QuoteMeta:
  "parseItems (regexp_QuoteMeta k @ r) = map_option ((@) (map Lit k)) (parseItems r)"
proof (induction k)
  case Nil
  show ?case by (simp add: option.map_ident)
next
  case (Cons c k)
  show ?case
  proof (cases "c \<in> set specialBytes")
    case True
    with special_props [OF True] Cons show ?thesis
      by (simp add: option.map_comp comp_def)
  next
    case False
    then have "c \<noteq> backslash" using backslash_special by auto
    with False Cons show ?thesis
      by (simp add: option.map_comp comp_def)
  qed
qed

lemma special_ascii: "c \<in> set specialBytes \<Longrightarrow> byte c < 0x80"
  by (rule special_props)

lemma backslash_ascii: "byte backslash < 0x80"
  by (simp add: backslash_def byte_def)


lemma checkUTF8_sync:
  "byte c < 0x80 \<Longrightarrow> checkUTF8 (xs @ c # ys) = (checkUTF8 xs \<and> checkUTF8 ys)"
proof (induction xs rule: checkUTF8.induct)
  case 1
  then show ?case by simp
next
  case (2 a s)
  have nc: "\<And>lo hi. 0x80 \<le> lo \<Longrightarrow> \<not> contByte lo hi c"
    using "2.prems" by (simp add: contByte_def)
  show ?case
  proof (cases "byte a < 0x80")
    case True
    with 2 show ?thesis by simp
  next
    case False
    note hi = False
    show ?thesis
    proof (cases s)
      case Nil
      with hi nc show ?thesis by (simp split: list.splits)
    next
      case s1: (Cons b s1)
      show ?thesis
      proof (cases s1)
        case Nil
        with hi nc s1 2 show ?thesis by (simp split: list.splits)
      next
        case s2: (Cons c2 s2)
        show ?thesis
        proof (cases s2)
          case Nil
          with hi nc s1 s2 2 show ?thesis by (simp split: list.splits)
        next
          case s3: (Cons d s3)
          with hi nc s1 s2 2 show ?thesis by simp
        qed
      qed
    qed
  qed
qed

lemma checkUTF8_QuoteMeta_gen:
  "set xs \<inter> set specialBytes = {} \<Longrightarrow>
   checkUTF8 (xs @ regexp_QuoteMeta k @ c # r) = checkUTF8 (xs @ k @ c # r)"
  if "byte c < 0x80"
proof (induction k arbitrary: xs)
  case Nil
  show ?case by simp
next
  case (Cons a k)
  show ?case
  proof (cases "a \<in> set specialBytes")
    case True
    then have a: "byte a < 0x80" by (rule special_ascii)
    have "checkUTF8 (xs @ regexp_QuoteMeta (a # k) @ c # r)
        = checkUTF8 (xs @ backslash # (a # regexp_QuoteMeta k @ c # r))"
      using True by simp
    also have "\<dots> = (checkUTF8 xs \<and> checkUTF8 ([] @ regexp_QuoteMeta k @ c # r))"
      using a by (simp add: checkUTF8_sync backslash_ascii)
    also have "\<dots> = (checkUTF8 xs \<and> checkUTF8 ([] @ k @ c # r))"
      using Cons.IH [of "[]"] by simp
    also have "\<dots> = checkUTF8 (xs @ (a # k) @ c # r)"
      using a by (simp add: checkUTF8_sync)
    finally show ?thesis .
  next
    case False
    with Cons.prems have "set (xs @ [a]) \<inter> set specialBytes = {}" by simp
    from Cons.IH [OF this] False show ?thesis by simp
  qed
qed

lemma checkUTF8_keywordPattern:
  "checkUTF8 (keywordPattern (regexp_QuoteMeta k)) = checkUTF8 k"
proof -
  have b: "byte backslash < 0x80" by (rule backslash_ascii)
  have "checkUTF8 (keywordPattern (regexp_QuoteMeta k))
      = checkUTF8 ([] @ regexp_QuoteMeta k @ backslash # ''b'')"
    by (simp add: keywordPattern_def byte_def backslash_def)
  also have "\<dots> = checkUTF8 ([] @ k @ backslash # ''b'')"
    by (rule checkUTF8_QuoteMeta_gen [OF b]) simp
  also have "\<dots> = checkUTF8 k"
    using b by (simp add: checkUTF8_sync byte_def)
  finally show ?thesis .
qed

lemma regexp_Compile_keywordPattern:
  "regexp_Compile (keywordPattern (regexp_QuoteMeta k)) =
     (if checkUTF8 k then Inr (Regexp True (WordBoundary # map Lit k @ [WordBoundary]))
      else Inl ErrInvalidUTF8)"
proof -
  have t: "take 4 (keywordPattern (regexp_QuoteMeta k)) = ''(?i)''"
    by (simp add: keywordPattern_def)
  have d: "drop 4 (keywordPattern (regexp_QuoteMeta k))
       = backslash # CHR ''b'' # (regexp_QuoteMeta k @ [backslash, CHR ''b''])"
    by (simp add: keywordPattern_def)
  have p: "parseItems (backslash # CHR ''b'' # (regexp_QuoteMeta k @ [backslash, CHR ''b'']))
       = Some (WordBoundary # map Lit k @ [WordBoundary])"
    by (simp add: parseItems_QuoteMeta)
  have q: "parseItems (regexp_QuoteMeta k @ [backslash, CHR ''b''])
       = Some (map Lit k @ [WordBoundary])"
    by (simp add: parseItems_QuoteMeta)
  show ?thesis
    by (simp add: regexp_Compile_def checkUTF8_keywordPattern t d q)
qed

section \<open>The matcher is whole-word, case-insensitive search\<close>

lemma lastOr_simps [simp]:
  "lastOr prev [] = prev"
  "lastOr prev (d # xs) = lastOr (Some d) xs"
  by (simp_all add: lastOr_def)

lemma lastOr_append: "lastOr prev (xs @ ys) = lastOr (lastOr prev xs) ys"
  by (simp add: lastOr_def)

lemma wordBefore_lastOr: "wordBefore (lastOr None xs) = wordAtEnd xs"
  by (simp add: lastOr_def wordBefore_def wordAtEnd_def)

lemma equalFold_length: "equalFold xs ys \<Longrightarrow> length xs = length ys"
  unfolding equalFold_def by (rule map_eq_imp_length_eq)

lemma runAt_literals:
  "runAt True (map Lit k @ insts) prev s \<longleftrightarrow>
     (equalFold (take (length k) s) k
      \<and> runAt True insts (lastOr prev (take (length k) s)) (drop (length k) s))"
proof (induction k arbitrary: prev s)
  case Nil
  show ?case by (simp add: equalFold_def)
next
  case (Cons c k)
  show ?case
  proof (cases s)
    case Nil
    then show ?thesis by (simp add: equalFold_def)
  next
    case (Cons d s')
    then show ?thesis
      using Cons.IH [of "Some d" s'] by (auto simp add: equalFold_def litMatches_def)
  qed
qed

lemma searchFrom_iff:
  "searchFrom fc insts prev s \<longleftrightarrow>
     (\<exists>i\<le>length s. runAt fc insts (lastOr prev (take i s)) (drop i s))"
proof (induction s arbitrary: prev)
  case Nil
  show ?case by simp
next
  case (Cons d s)
  have "(\<exists>i\<le>length (d # s). runAt fc insts (lastOr prev (take i (d # s))) (drop i (d # s)))
      \<longleftrightarrow> (runAt fc insts prev (d # s)
           \<or> (\<exists>i\<le>length s. runAt fc insts (lastOr (Some d) (take i s)) (drop i s)))"
    (is "?L \<longleftrightarrow> ?A \<or> ?B")
  proof
    assume ?L
    then obtain i where i: "i \<le> length (d # s)"
      "runAt fc insts (lastOr prev (take i (d # s))) (drop i (d # s))" by blast
    show "?A \<or> ?B"
    proof (cases i)
      case 0
      with i show ?thesis by simp
    next
      case (Suc j)
      with i have "j \<le> length s" "runAt fc insts (lastOr (Some d) (take j s)) (drop j s)"
        by simp_all
      then show ?thesis by blast
    qed
  next
    assume "?A \<or> ?B"
    then show ?L
    proof
      assume ?A
      then have "runAt fc insts (lastOr prev (take 0 (d # s))) (drop 0 (d # s))" by simp
      then show ?L by blast
    next
      assume ?B
      then obtain j where "j \<le> length s" "runAt fc insts (lastOr (Some d) (take j s)) (drop j s)"
        by blast
      then have "Suc j \<le> length (d # s)"
        "runAt fc insts (lastOr prev (take (Suc j) (d # s))) (drop (Suc j) (d # s))"
        by simp_all
      then show ?L by blast
    qed
  qed
  with Cons.IH [of "Some d"] show ?case by simp
qed

lemma atWordBoundary_lastOr: "atWordBoundary (lastOr None xs) ys = boundaryBetween xs ys"
  by (simp add: atWordBoundary_def boundaryBetween_def wordBefore_lastOr)

lemma occursAsWholeWord_iff:
  "occursAsWholeWord k s \<longleftrightarrow> (\<exists>i\<le>length s. wholeWordAt k s i)"
proof -
  have "set [0..<Suc (length s)] = {i. i \<le> length s}" by auto
  then show ?thesis unfolding occursAsWholeWord_def by blast
qed

lemma MatchString_keyword:
  "MatchString (Regexp True (WordBoundary # map Lit k @ [WordBoundary])) s
     = occursAsWholeWord k s"
proof -
  have step: "runAt True (WordBoundary # map Lit k @ [WordBoundary]) (lastOr None (take i s)) (drop i s)
        = wholeWordAt k s i" if "i \<le> length s" for i
  proof (cases "equalFold (take (length k) (drop i s)) k")
    case False
    then show ?thesis by (simp add: runAt_literals wholeWordAt_def)
  next
    case True
    from equalFold_length [OF this] that have len: "i + length k \<le> length s" by simp
    have "lastOr (lastOr None (take i s)) (take (length k) (drop i s))
        = lastOr None (take (i + length k) s)"
      by (simp add: take_add lastOr_append)
    with True show ?thesis
      by (simp add: runAt_literals wholeWordAt_def atWordBoundary_lastOr add.commute)
  qed
  have "MatchString (Regexp True (WordBoundary # map Lit k @ [WordBoundary])) s
      \<longleftrightarrow> (\<exists>i\<le>length s. wholeWordAt k s i)"
    unfolding MatchString_def searchFrom_iff Regexp.sel using step by blast
  then show ?thesis by (simp add: occursAsWholeWord_iff)
qed

lemma equalFold_lower: "equalFold (map toLowerByte xs) k = equalFold xs k"
  by (simp add: equalFold_def toLowerByte_idem comp_def)

lemma wordAtEnd_lower: "wordAtEnd (map toLowerByte xs) = wordAtEnd xs"
  by (cases "xs = []") (simp_all add: wordAtEnd_def last_map isWordChar_toLowerByte)

lemma wordAfter_lower: "wordAfter (map toLowerByte xs) = wordAfter xs"
  by (cases xs) (simp_all add: wordAfter_def isWordChar_toLowerByte)

lemma wholeWordAt_lower: "wholeWordAt k (map toLowerByte t) i = wholeWordAt k t i"
  by (simp add: wholeWordAt_def boundaryBetween_def take_map drop_map
      equalFold_lower wordAtEnd_lower wordAfter_lower)

lemma occursAsWholeWord_lower:
  "occursAsWholeWord k (strings_ToLower t) = occursAsWholeWord k t"
  by (simp add: occursAsWholeWord_def strings_ToLower_def wholeWordAt_lower)

lemma findKeywords_loop_filter:
  "findKeywords_loop low ks found
     = found @ filter (\<lambda>k. checkUTF8 k \<and> occursAsWholeWord k low) ks"
  by (induction ks arbitrary: found)
    (simp_all add: regexp_Compile_keywordPattern MatchString_keyword)

lemma findKeywords_filter:
  "findKeywords text ks = filter (keywordMatches text) ks"
  by (simp add: findKeywords_def findKeywords_loop_filter occursAsWholeWord_lower
      keywordMatches_def [abs_def])

subsection \<open>A space between two texts\<close>








section \<open>Claims about the keyword matcher\<close>



lemma ex_hello: "findKeywords ''hello world'' [''VA'', ''leads''] = []" by code_simp
lemma ex_bad: "findKeywords ''Need a VA'' [[CHR 0xFF], ''VA''] = [''VA'']" by code_simp
lemma ex_cuts: "cutsWord ''VA'' ''IVA'' 1" by code_simp



lemma compile_fails_iff:
  "(\<exists>e. regexp_Compile (keywordPattern (regexp_QuoteMeta k)) = Inl e) \<longleftrightarrow> \<not> checkUTF8 k"
  by (simp add: regexp_Compile_keywordPattern)



text \<open>
  Claim C6. The matcher is a total function to lists of keywords and has no error
  result. When no keyword matches, the result is empty; a keyword whose pattern does
  not compile (which happens exactly when the keyword is not valid UTF-8) is skipped,
  and the result is the one obtained without that keyword; the result is never longer
  than the keyword list. \<open>hello world\<close> against \<open>VA\<close>, \<open>leads\<close> gives the empty
  result; the malformed keyword \<open>0xFF\<close> before \<open>VA\<close> does not stop \<open>VA\<close> from being
  found.
\<close>

theorem matcher_total_skips_malformed:
  "((\<forall>k \<in> set kws. \<not> keywordMatches text k) \<longrightarrow> findKeywords text kws = [])
   \<and> (regexp_Compile (keywordPattern (regexp_QuoteMeta bad)) = Inl e \<longrightarrow>
        findKeywords text (ks1 @ bad # ks2) = findKeywords text (ks1 @ ks2))
   \<and> ((\<exists>err. regexp_Compile (keywordPattern (regexp_QuoteMeta bad)) = Inl err)
        \<longleftrightarrow> \<not> checkUTF8 bad)
   \<and> length (findKeywords text kws) \<le> length kws
   \<and> findKeywords ''hello world'' [''VA'', ''leads''] = []
   \<and> findKeywords ''Need a VA'' [[CHR 0xFF], ''VA''] = [''VA'']"
proof -
  have none: "(\<forall>k \<in> set kws. \<not> keywordMatches text k) \<longrightarrow> findKeywords text kws = []"
    by (simp add: findKeywords_filter filter_empty_conv)
  have skip: "regexp_Compile (keywordPattern (regexp_QuoteMeta bad)) = Inl e \<longrightarrow>
        findKeywords text (ks1 @ bad # ks2) = findKeywords text (ks1 @ ks2)"
  proof
    assume "regexp_Compile (keywordPattern (regexp_QuoteMeta bad)) = Inl e"
    then have "\<not> checkUTF8 bad" using compile_fails_iff [of bad] by blast
    then show "findKeywords text (ks1 @ bad # ks2) = findKeywords text (ks1 @ ks2)"
      by (simp add: findKeywords_filter keywordMatches_def)
  qed
  have len: "length (findKeywords text kws) \<le> length kws"
    by (simp add: findKeywords_filter)
  from none skip len show ?thesis
    by (simp add: compile_fails_iff ex_hello ex_bad)
qed

theorem matcher_total_skips_malformed_witness:
  "findKeywords ''hello world'' [''VA'', ''leads''] = []
   \<and> findKeywords ''Need a VA'' ([] @ [CHR 0xFF] # [''VA'']) = findKeywords ''Need a VA'' ([] @ [''VA''])
   \<and> \<not> checkUTF8 [CHR 0xFF]"
proof -
  have a: "\<forall>k \<in> set [''VA'', ''leads'']. \<not> keywordMatches ''hello world'' k" by code_simp
  have b: "regexp_Compile (keywordPattern (regexp_QuoteMeta [CHR 0xFF])) = Inl ErrInvalidUTF8"
    by code_simp
  from matcher_total_skips_malformed [of "[''VA'', ''leads'']" "''hello world''" "[CHR 0xFF]"
      ErrInvalidUTF8 "[]" "[''VA'']"] a
  have 1: "findKeywords ''hello world'' [''VA'', ''leads''] = []" by blast
  from matcher_total_skips_malformed [of "[''VA'']" "''Need a VA''" "[CHR 0xFF]"
      ErrInvalidUTF8 "[]" "[''VA'']"] b
  have 2: "findKeywords ''Need a VA'' ([] @ [CHR 0xFF] # [''VA'']) = findKeywords ''Need a VA'' ([] @ [''VA''])"
    and 3: "\<not> checkUTF8 [CHR 0xFF]" by blast+
  from 1 2 3 show ?thesis by blast
qed




section \<open>Properties of the pipeline\<close>

lemmas step_defs = processPost_def processComment_def FindOne_def InsertOne_def sendEmail_def
  markPostProcessed_def markCommentProcessed_def emit_def called_def Let_def

lemma notifierCalls_append [simp]:
  "notifierCalls p (xs @ ys) = notifierCalls p xs @ notifierCalls p ys"
  by (simp add: notifierCalls_def)

lemma notifierCalls_simps [simp]:
  "notifierCalls p [] = []"
  "notifierCalls p (e # es) = (if isNotifierCallFor p e then e # notifierCalls p es else notifierCalls p es)"
  by (simp_all add: notifierCalls_def)

lemma delivered_append [simp]: "delivered (xs @ ys) = delivered xs @ delivered ys"
  by (simp add: delivered_def)

lemma delivered_simps [simp]:
  "delivered [] = []"
  "delivered (e # es) = deliveredItem e @ delivered es"
  by (simp_all add: delivered_def)

lemma matcherInputs_append [simp]: "matcherInputs (xs @ ys) = matcherInputs xs @ matcherInputs ys"
  by (simp add: matcherInputs_def)

lemma matcherInputs_simps [simp]:
  "matcherInputs [] = []"
  "matcherInputs (e # es) = matcherInput e @ matcherInputs es"
  by (simp_all add: matcherInputs_def)

lemma processPost_db_mono: "set (db w) \<subseteq> set (db (processPost E w post))"
  by (auto simp add: step_defs split: prod.splits find_result.splits insert_result.splits option.splits)

lemma processPost_seen_quiet:
  "p \<in> set (db w) \<Longrightarrow>
   notifierCalls p (trace (processPost E w post)) = notifierCalls p (trace w)"
  by (auto simp add: step_defs split: prod.splits find_result.splits insert_result.splits option.splits)

lemma processPost_store_error:
  "findFails E (calls w) \<Longrightarrow>
   processPost E w post =
     w\<lparr>trace := trace w @ [FindOneCall (Permalink post) FindError,
                             Print (ErrorCheckingPost (Permalink post))],
       calls := Suc (calls w)\<rparr>"
  by (simp add: step_defs)

lemma processPost_inv:
  "set (db w) \<subseteq> set (delivered (trace w)) \<Longrightarrow>
   set (db (processPost E w post)) \<subseteq> set (delivered (trace (processPost E w post)))"
  by (auto simp add: step_defs split: prod.splits find_result.splits insert_result.splits option.splits)

lemma processPost_recorded_iff:
  "Permalink post \<in> set (db (processPost E w post)) \<longleftrightarrow>
     Permalink post \<in> set (db w)
     \<or> (\<not> findFails E (calls w)
        \<and> findKeywords (Title post @ '' '' @ Selftext post) keywords_list \<noteq> []
        \<and> \<not> sendFails E (Suc (calls w))
        \<and> \<not> insertFails E (Suc (Suc (calls w))))"
  by (auto simp add: step_defs split: prod.splits find_result.splits insert_result.splits option.splits)


lemmas step_splits = prod.splits find_result.splits insert_result.splits option.splits

subsection \<open>One item\<close>

lemma processComment_db_mono: "set (db w) \<subseteq> set (db (processComment E w comment))"
  by (auto simp add: step_defs split: step_splits)

lemma processComment_seen_quiet:
  "p \<in> set (db w) \<Longrightarrow>
   notifierCalls p (trace (processComment E w comment)) = notifierCalls p (trace w)"
  by (auto simp add: step_defs split: step_splits)

lemma processComment_store_error:
  "findFails E (calls w) \<Longrightarrow>
   processComment E w comment =
     w\<lparr>trace := trace w @ [FindOneCall (CommentPermalink comment) FindError,
                             Print (ErrorCheckingComment (CommentPermalink comment))],
       calls := Suc (calls w)\<rparr>"
  by (simp add: step_defs)

lemma processComment_inv:
  "set (db w) \<subseteq> set (delivered (trace w)) \<Longrightarrow>
   set (db (processComment E w comment)) \<subseteq> set (delivered (trace (processComment E w comment)))"
  by (auto simp add: step_defs split: step_splits)

lemma processComment_recorded_iff:
  "CommentPermalink comment \<in> set (db (processComment E w comment)) \<longleftrightarrow>
     CommentPermalink comment \<in> set (db w)
     \<or> (\<not> findFails E (calls w)
        \<and> findKeywords (Body comment) keywords_list \<noteq> []
        \<and> \<not> sendFails E (Suc (calls w))
        \<and> \<not> insertFails E (Suc (Suc (calls w))))"
  by (auto simp add: step_defs split: step_splits)

lemma processPost_unrecorded:
  "findKeywords (Title post @ '' '' @ Selftext post) keywords_list = []
     \<or> sendFails E (Suc (calls w)) \<Longrightarrow>
   db (processPost E w post) = db w"
  by (auto simp add: step_defs split: step_splits)

lemma processComment_unrecorded:
  "findKeywords (Body comment) keywords_list = [] \<or> sendFails E (Suc (calls w)) \<Longrightarrow>
   db (processComment E w comment) = db w"
  by (auto simp add: step_defs split: step_splits)

subsection \<open>Lists of items, fetches, cycles and process lifetimes\<close>

text \<open>
  Once \<open>p\<close> is in the store, every part of the program leaves it there and makes no
  call to the notifier for it.
\<close>

lemma processPosts_keeps:
  "p \<in> set (db w) \<Longrightarrow>
   p \<in> set (db (processPosts E w posts))
   \<and> notifierCalls p (trace (processPosts E w posts)) = notifierCalls p (trace w)"
proof (induction posts arbitrary: w)
  case Nil
  then show ?case by simp
next
  case (Cons post posts)
  from Cons.prems processPost_db_mono [of w E post]
  have "p \<in> set (db (processPost E w post))" by blast
  from Cons.IH [OF this] processPost_seen_quiet [OF Cons.prems, of E post]
  show ?case by simp
qed

lemma processComments_keeps:
  "p \<in> set (db w) \<Longrightarrow>
   p \<in> set (db (processComments E w comments))
   \<and> notifierCalls p (trace (processComments E w comments)) = notifierCalls p (trace w)"
proof (induction comments arbitrary: w)
  case Nil
  then show ?case by simp
next
  case (Cons comment comments)
  from Cons.prems processComment_db_mono [of w E comment]
  have "p \<in> set (db (processComment E w comment))" by blast
  from Cons.IH [OF this] processComment_seen_quiet [OF Cons.prems, of E comment]
  show ?case by simp
qed

lemma fetchPosts_frame:
  "db (snd (fetchPosts E w url)) = db w
   \<and> trace (snd (fetchPosts E w url)) = trace w @ [HttpExchange url (httpDo E (calls w) url)]"
  by (simp add: fetchPosts_def emit_def called_def Let_def split: http_result.splits option.splits)

lemma fetchComments_frame:
  "db (snd (fetchComments E w url)) = db w
   \<and> trace (snd (fetchComments E w url)) = trace w @ [HttpExchange url (httpDo E (calls w) url)]"
  by (simp add: fetchComments_def emit_def called_def Let_def
      split: http_result.splits option.splits)

lemma emit_simps [simp]:
  "db (emit e w) = db w" "trace (emit e w) = trace w @ [e]" "calls (emit e w) = calls w"
  by (simp_all add: emit_def)

lemma cycle_unfold:
  "cycle E w =
     (let w0 = emit (Print FetchingNewData) w;
          r1 = fetchPosts E w0 postEndpoint;
          w2 = (case snd (fst r1) of
                  Some err \<Rightarrow> emit (Print (ErrorFetchingPosts err)) (snd r1)
                | None \<Rightarrow> processPosts E (snd r1) (fst (fst r1)));
          r2 = fetchComments E w2 commentEndpoint
      in emit Sleep
           (case snd (fst r2) of
              Some err \<Rightarrow> emit (Print (ErrorFetchingComments err)) (snd r2)
            | None \<Rightarrow> processComments E (snd r2) (fst (fst r2))))"
proof -
  obtain ps e1 w1
    where f1: "fetchPosts E (emit (Print FetchingNewData) w) postEndpoint = ((ps, e1), w1)"
    by (metis surj_pair)
  define w2 where "w2 = (case e1 of Some err \<Rightarrow> emit (Print (ErrorFetchingPosts err)) w1
                                   | None \<Rightarrow> processPosts E w1 ps)"
  obtain cs e2 w3 where f2: "fetchComments E w2 commentEndpoint = ((cs, e2), w3)"
    by (metis surj_pair)
  have l: "cycle E w = emit Sleep (case e2 of
              Some err \<Rightarrow> emit (Print (ErrorFetchingComments err)) w3
            | None \<Rightarrow> processComments E w3 cs)"
  proof (cases e1)
    case None
    with f2 have "fetchComments E (processPosts E w1 ps) commentEndpoint = ((cs, e2), w3)"
      by (simp add: w2_def)
    with None f1 show ?thesis by (cases e2) (simp_all add: cycle_def)
  next
    case (Some err)
    with f2 have "fetchComments E (emit (Print (ErrorFetchingPosts err)) w1) commentEndpoint
        = ((cs, e2), w3)"
      by (simp add: w2_def)
    with Some f1 show ?thesis by (cases e2) (simp_all add: cycle_def)
  qed
  show ?thesis unfolding l Let_def f1 fst_conv snd_conv w2_def [symmetric] f2 ..
qed

lemma cycle_keeps:
  assumes p: "p \<in> set (db w)"
  shows "p \<in> set (db (cycle E w))
         \<and> notifierCalls p (trace (cycle E w)) = notifierCalls p (trace w)"
proof -
  define w0 where "w0 = emit (Print FetchingNewData) w"
  define r1 where "r1 = fetchPosts E w0 postEndpoint"
  define w2 where "w2 = (case snd (fst r1) of
                  Some err \<Rightarrow> emit (Print (ErrorFetchingPosts err)) (snd r1)
                | None \<Rightarrow> processPosts E (snd r1) (fst (fst r1)))"
  define r2 where "r2 = fetchComments E w2 commentEndpoint"
  define w4 where "w4 = (case snd (fst r2) of
              Some err \<Rightarrow> emit (Print (ErrorFetchingComments err)) (snd r2)
            | None \<Rightarrow> processComments E (snd r2) (fst (fst r2)))"
  have c: "cycle E w = emit Sleep w4"
    unfolding cycle_unfold Let_def w4_def r2_def w2_def r1_def w0_def by (rule refl)
  have k0: "p \<in> set (db w0)" "notifierCalls p (trace w0) = notifierCalls p (trace w)"
    using p by (simp_all add: w0_def)
  from fetchPosts_frame [of E w0 postEndpoint] k0
  have k1: "p \<in> set (db (snd r1))"
    "notifierCalls p (trace (snd r1)) = notifierCalls p (trace w)"
    by (simp_all add: r1_def)
  have k2: "p \<in> set (db w2) \<and> notifierCalls p (trace w2) = notifierCalls p (trace w)"
    using k1 processPosts_keeps [OF k1(1), of E "fst (fst r1)"]
    by (cases "snd (fst r1)") (simp_all add: w2_def)
  from fetchComments_frame [of E w2 commentEndpoint] k2
  have k3: "p \<in> set (db (snd r2))"
    "notifierCalls p (trace (snd r2)) = notifierCalls p (trace w)"
    by (simp_all add: r2_def)
  have k4: "p \<in> set (db w4) \<and> notifierCalls p (trace w4) = notifierCalls p (trace w)"
    using k3 processComments_keeps [OF k3(1), of E "fst (fst r2)"]
    by (cases "snd (fst r2)") (simp_all add: w4_def)
  with c show ?thesis by simp
qed

lemma forLoop_keeps:
  "p \<in> set (db w) \<Longrightarrow>
   p \<in> set (db (forLoop E n w))
   \<and> notifierCalls p (trace (forLoop E n w)) = notifierCalls p (trace w)"
proof (induction n arbitrary: w)
  case 0
  then show ?case by simp
next
  case (Suc n)
  from cycle_keeps [OF Suc.prems, of E]
  have c: "p \<in> set (db (cycle E w))"
    "notifierCalls p (trace (cycle E w)) = notifierCalls p (trace w)" by simp_all
  from Suc.IH [OF c(1)] c(2) show ?case by simp
qed

lemma startup_frame:
  "db (snd (startup cfg E w)) = db w
   \<and> notifierCalls p (trace (snd (startup cfg E w))) = notifierCalls p (trace w)
   \<and> delivered (trace (snd (startup cfg E w))) = delivered (trace w)"
  by (simp add: startup_def Let_def called_def)

lemma main_keeps:
  assumes p: "p \<in> set (db w)"
  shows "p \<in> set (db (snd (main cfg E n w)))
         \<and> notifierCalls p (trace (snd (main cfg E n w))) = notifierCalls p (trace w)"
proof -
  obtain code w1 where s: "startup cfg E w = (code, w1)" by (metis prod.collapse)
  from startup_frame [of cfg E w p] s p
  have k: "p \<in> set (db w1)" "notifierCalls p (trace w1) = notifierCalls p (trace w)"
    by simp_all
  show ?thesis
  proof (cases code)
    case None
    with s k forLoop_keeps [OF k(1), of E n] show ?thesis by (simp add: main_def)
  next
    case (Some c)
    with s k show ?thesis by (simp add: main_def)
  qed
qed

lemma lifetimes_keeps:
  "p \<in> set (db w) \<Longrightarrow>
   p \<in> set (db (lifetimes cfg E ns w))
   \<and> notifierCalls p (trace (lifetimes cfg E ns w)) = notifierCalls p (trace w)"
proof (induction ns arbitrary: w)
  case Nil
  then show ?case by simp
next
  case (Cons n ns)
  from main_keeps [OF Cons.prems, of cfg E n]
  have m: "p \<in> set (db (snd (main cfg E n w)))"
    "notifierCalls p (trace (snd (main cfg E n w))) = notifierCalls p (trace w)" by simp_all
  from Cons.IH [OF m(1)] m(2) show ?case by simp
qed

lemma InsertOne_Inserted: "InsertOne E w p = (Inserted, w') \<Longrightarrow> p \<in> set (db w')"
  by (auto simp add: InsertOne_def Let_def split: if_splits)

subsection \<open>The store holds only delivered items\<close>

lemma processPosts_inv:
  "set (db w) \<subseteq> set (delivered (trace w)) \<Longrightarrow>
   set (db (processPosts E w posts)) \<subseteq> set (delivered (trace (processPosts E w posts)))"
  by (induction posts arbitrary: w) (simp_all add: processPost_inv)

lemma processComments_inv:
  "set (db w) \<subseteq> set (delivered (trace w)) \<Longrightarrow>
   set (db (processComments E w comments))
     \<subseteq> set (delivered (trace (processComments E w comments)))"
  by (induction comments arbitrary: w) (simp_all add: processComment_inv)

lemma cycle_inv:
  assumes i: "set (db w) \<subseteq> set (delivered (trace w))"
  shows "set (db (cycle E w)) \<subseteq> set (delivered (trace (cycle E w)))"
proof -
  define w0 where "w0 = emit (Print FetchingNewData) w"
  define r1 where "r1 = fetchPosts E w0 postEndpoint"
  define w2 where "w2 = (case snd (fst r1) of
                  Some err \<Rightarrow> emit (Print (ErrorFetchingPosts err)) (snd r1)
                | None \<Rightarrow> processPosts E (snd r1) (fst (fst r1)))"
  define r2 where "r2 = fetchComments E w2 commentEndpoint"
  define w4 where "w4 = (case snd (fst r2) of
              Some err \<Rightarrow> emit (Print (ErrorFetchingComments err)) (snd r2)
            | None \<Rightarrow> processComments E (snd r2) (fst (fst r2)))"
  have c: "cycle E w = emit Sleep w4"
    unfolding cycle_unfold Let_def w4_def r2_def w2_def r1_def w0_def by (rule refl)
  have k0: "set (db w0) \<subseteq> set (delivered (trace w0))"
    using i by (simp add: w0_def)
  from fetchPosts_frame [of E w0 postEndpoint] k0
  have k1: "set (db (snd r1)) \<subseteq> set (delivered (trace (snd r1)))"
    by (simp add: r1_def)
  have k2: "set (db w2) \<subseteq> set (delivered (trace w2))"
    using k1 processPosts_inv [OF k1, of E "fst (fst r1)"]
    by (cases "snd (fst r1)") (simp_all add: w2_def)
  from fetchComments_frame [of E w2 commentEndpoint] k2
  have k3: "set (db (snd r2)) \<subseteq> set (delivered (trace (snd r2)))"
    by (simp add: r2_def)
  have k4: "set (db w4) \<subseteq> set (delivered (trace w4))"
    using k3 processComments_inv [OF k3, of E "fst (fst r2)"]
    by (cases "snd (fst r2)") (simp_all add: w4_def)
  with c show ?thesis by simp
qed

lemma forLoop_inv:
  "set (db w) \<subseteq> set (delivered (trace w)) \<Longrightarrow>
   set (db (forLoop E n w)) \<subseteq> set (delivered (trace (forLoop E n w)))"
  by (induction n arbitrary: w) (simp_all add: cycle_inv)

subsection \<open>The record step\<close>







subsection \<open>Fetching\<close>

lemma collectPosts_map: "collectPosts children posts = posts @ map PostChildData children"
  by (induction children arbitrary: posts) simp_all

lemma collectComments_map:
  "collectComments children comments = comments @ map CommentChildData children"
  by (induction children arbitrary: comments) simp_all

lemma fetchPosts_error_iff:
  "snd (fst (fetchPosts E w url)) \<noteq> None \<longleftrightarrow>
     httpDo E (calls w) url = NewRequestError \<or> httpDo E (calls w) url = DoError
     \<or> (\<exists>status payload. httpDo E (calls w) url = Response status payload
           \<and> (status \<noteq> StatusOK \<or> decodePosts E payload = None))"
  by (auto simp add: fetchPosts_def Let_def split: http_result.splits option.splits)

lemma fetchComments_error_iff:
  "snd (fst (fetchComments E w url)) \<noteq> None \<longleftrightarrow>
     httpDo E (calls w) url = NewRequestError \<or> httpDo E (calls w) url = DoError
     \<or> (\<exists>status payload. httpDo E (calls w) url = Response status payload
           \<and> (status \<noteq> StatusOK \<or> decodeComments E payload = None))"
  by (auto simp add: fetchComments_def Let_def split: http_result.splits option.splits)

lemma fetchPosts_error_no_items:
  "snd (fst (fetchPosts E w url)) \<noteq> None \<Longrightarrow> fst (fst (fetchPosts E w url)) = []"
  by (auto simp add: fetchPosts_def Let_def split: http_result.splits option.splits if_splits)

lemma fetchComments_error_no_items:
  "snd (fst (fetchComments E w url)) \<noteq> None \<Longrightarrow> fst (fst (fetchComments E w url)) = []"
  by (auto simp add: fetchComments_def Let_def split: http_result.splits option.splits if_splits)

lemma fetchPosts_ok:
  "httpDo E (calls w) url = Response StatusOK payload \<Longrightarrow>
   decodePosts E payload = Some response \<Longrightarrow>
   fst (fetchPosts E w url) = (map PostChildData (PostChildren (PostData response)), None)"
  by (simp add: fetchPosts_def Let_def collectPosts_map)

lemma fetchComments_ok:
  "httpDo E (calls w) url = Response StatusOK payload \<Longrightarrow>
   decodeComments E payload = Some response \<Longrightarrow>
   fst (fetchComments E w url)
     = (map CommentChildData (CommentChildren (CommentData response)), None)"
  by (simp add: fetchComments_def Let_def collectComments_map)

subsection \<open>The loop\<close>

lemma sleeps_append [simp]: "sleeps (xs @ ys) = sleeps xs + sleeps ys"
  by (simp add: sleeps_def)

lemma sleeps_simps [simp]:
  "sleeps [] = 0" "sleeps (e # es) = (if e = Sleep then 1 else 0) + sleeps es"
  by (simp_all add: sleeps_def)

lemma processPost_sleeps: "sleeps (trace (processPost E w post)) = sleeps (trace w)"
  by (auto simp add: step_defs split: step_splits)

lemma processComment_sleeps: "sleeps (trace (processComment E w comment)) = sleeps (trace w)"
  by (auto simp add: step_defs split: step_splits)

lemma processPosts_sleeps: "sleeps (trace (processPosts E w posts)) = sleeps (trace w)"
  by (induction posts arbitrary: w) (simp_all add: processPost_sleeps)

lemma processComments_sleeps: "sleeps (trace (processComments E w comments)) = sleeps (trace w)"
  by (induction comments arbitrary: w) (simp_all add: processComment_sleeps)

lemma cycle_sleeps: "sleeps (trace (cycle E w)) = Suc (sleeps (trace w))"
proof -
  define w0 where "w0 = emit (Print FetchingNewData) w"
  define r1 where "r1 = fetchPosts E w0 postEndpoint"
  define w2 where "w2 = (case snd (fst r1) of
                  Some err \<Rightarrow> emit (Print (ErrorFetchingPosts err)) (snd r1)
                | None \<Rightarrow> processPosts E (snd r1) (fst (fst r1)))"
  define r2 where "r2 = fetchComments E w2 commentEndpoint"
  define w4 where "w4 = (case snd (fst r2) of
              Some err \<Rightarrow> emit (Print (ErrorFetchingComments err)) (snd r2)
            | None \<Rightarrow> processComments E (snd r2) (fst (fst r2)))"
  have c: "cycle E w = emit Sleep w4"
    unfolding cycle_unfold Let_def w4_def r2_def w2_def r1_def w0_def by (rule refl)
  have k0: "sleeps (trace w0) = sleeps (trace w)" by (simp add: w0_def)
  from fetchPosts_frame [of E w0 postEndpoint] k0
  have k1: "sleeps (trace (snd r1)) = sleeps (trace w)" by (simp add: r1_def)
  have k2: "sleeps (trace w2) = sleeps (trace w)"
    using k1 by (cases "snd (fst r1)") (simp_all add: w2_def processPosts_sleeps)
  from fetchComments_frame [of E w2 commentEndpoint] k2
  have k3: "sleeps (trace (snd r2)) = sleeps (trace w)" by (simp add: r2_def)
  have k4: "sleeps (trace w4) = sleeps (trace w)"
    using k3 by (cases "snd (fst r2)") (simp_all add: w4_def processComments_sleeps)
  with c show ?thesis by simp
qed

lemma forLoop_sleeps: "sleeps (trace (forLoop E n w)) = sleeps (trace w) + n"
  by (induction n arbitrary: w) (simp_all add: cycle_sleeps)

lemma cycle_posts_fail:
  assumes "fetchPosts E (emit (Print FetchingNewData) w) postEndpoint = ((ps, Some e), w1)"
    and "fetchComments E (emit (Print (ErrorFetchingPosts e)) w1) commentEndpoint
           = ((cs, None), w3)"
  shows "cycle E w = emit Sleep (processComments E w3 cs)"
  using assms by (simp add: cycle_def)

lemma cycle_comments_fail:
  assumes "fetchPosts E (emit (Print FetchingNewData) w) postEndpoint = ((ps, None), w1)"
    and "fetchComments E (processPosts E w1 ps) commentEndpoint = ((cs, Some e), w3)"
  shows "cycle E w = emit Sleep (emit (Print (ErrorFetchingComments e)) w3)"
  using assms by (simp add: cycle_def)

lemma cycle_both_fail:
  assumes "fetchPosts E (emit (Print FetchingNewData) w) postEndpoint = ((ps, Some e), w1)"
    and "fetchComments E (emit (Print (ErrorFetchingPosts e)) w1) commentEndpoint
           = ((cs, Some e'), w3)"
  shows "cycle E w = emit Sleep (emit (Print (ErrorFetchingComments e')) w3)"
  using assms by (simp add: cycle_def)

lemma main_loops:
  "startup cfg E w = (None, w1) \<Longrightarrow> main cfg E n w = (Looping, forLoop E n w1)"
  by (simp add: main_def)

subsection \<open>Inserts follow deliveries\<close>

lemma recordsFollowDelivery_append:
  "recordsFollowDelivery seen (xs @ ys) \<longleftrightarrow>
     recordsFollowDelivery seen xs \<and> recordsFollowDelivery (rev (delivered xs) @ seen) ys"
proof (induction xs arbitrary: seen)
  case Nil
  show ?case by simp
next
  case (Cons e xs)
  have "rev (deliveredItem e) = deliveredItem e" by (cases e) simp_all
  with Cons show ?case by simp
qed

lemma processPost_order:
  "recordsFollowDelivery [] (trace w) \<Longrightarrow> recordsFollowDelivery [] (trace (processPost E w post))"
  by (auto simp add: step_defs recordsFollowDelivery_append split: step_splits)

lemma processComment_order:
  "recordsFollowDelivery [] (trace w) \<Longrightarrow>
   recordsFollowDelivery [] (trace (processComment E w comment))"
  by (auto simp add: step_defs recordsFollowDelivery_append split: step_splits)

lemma processPosts_order:
  "recordsFollowDelivery [] (trace w) \<Longrightarrow>
   recordsFollowDelivery [] (trace (processPosts E w posts))"
  by (induction posts arbitrary: w) (simp_all add: processPost_order)

lemma processComments_order:
  "recordsFollowDelivery [] (trace w) \<Longrightarrow>
   recordsFollowDelivery [] (trace (processComments E w comments))"
  by (induction comments arbitrary: w) (simp_all add: processComment_order)

lemma cycle_order:
  assumes i: "recordsFollowDelivery [] (trace w)"
  shows "recordsFollowDelivery [] (trace (cycle E w))"
proof -
  define w0 where "w0 = emit (Print FetchingNewData) w"
  define r1 where "r1 = fetchPosts E w0 postEndpoint"
  define w2 where "w2 = (case snd (fst r1) of
                  Some err \<Rightarrow> emit (Print (ErrorFetchingPosts err)) (snd r1)
                | None \<Rightarrow> processPosts E (snd r1) (fst (fst r1)))"
  define r2 where "r2 = fetchComments E w2 commentEndpoint"
  define w4 where "w4 = (case snd (fst r2) of
              Some err \<Rightarrow> emit (Print (ErrorFetchingComments err)) (snd r2)
            | None \<Rightarrow> processComments E (snd r2) (fst (fst r2)))"
  have c: "cycle E w = emit Sleep w4"
    unfolding cycle_unfold Let_def w4_def r2_def w2_def r1_def w0_def by (rule refl)
  have k0: "recordsFollowDelivery [] (trace w0)"
    using i by (simp add: w0_def recordsFollowDelivery_append)
  from fetchPosts_frame [of E w0 postEndpoint] k0
  have k1: "recordsFollowDelivery [] (trace (snd r1))"
    by (simp add: r1_def recordsFollowDelivery_append)
  have k2: "recordsFollowDelivery [] (trace w2)"
    using k1 processPosts_order [OF k1, of E "fst (fst r1)"]
    by (cases "snd (fst r1)") (simp_all add: w2_def recordsFollowDelivery_append)
  from fetchComments_frame [of E w2 commentEndpoint] k2
  have k3: "recordsFollowDelivery [] (trace (snd r2))"
    by (simp add: r2_def recordsFollowDelivery_append)
  have k4: "recordsFollowDelivery [] (trace w4)"
    using k3 processComments_order [OF k3, of E "fst (fst r2)"]
    by (cases "snd (fst r2)") (simp_all add: w4_def recordsFollowDelivery_append)
  with c show ?thesis by (simp add: recordsFollowDelivery_append)
qed

lemma forLoop_order:
  "recordsFollowDelivery [] (trace w) \<Longrightarrow> recordsFollowDelivery [] (trace (forLoop E n w))"
  by (induction n arbitrary: w) (simp_all add: cycle_order)

section \<open>Claims about the pipeline\<close>

lemma recordedWorld_db: "db recordedWorld = [''/r/test/1'']"
  unfolding recordedWorld_def by code_simp

lemma forLoop_keeps_calls:
  "p \<in> set (db w) \<Longrightarrow> notifierCalls p (trace (forLoop E n w)) = notifierCalls p (trace w)"
  using forLoop_keeps by blast

text \<open>
  Claim C1. A successful record of an identifier puts it in the store. From any state
  of the world in which the identifier is in the store, no processing of fetched posts
  or comments, no number of iterations of the loop, and no sequence of restarts of the
  process (each running any number of iterations, under any behaviour of the network,
  the store and the mail transport) adds a call to the notifier for that identifier,
  and the identifier stays in the store. The store is the database collection, which a
  restart of the process does not touch.
\<close>

theorem notified_once:
  "(InsertOne E0 w0 p = (Inserted, w) \<longrightarrow> p \<in> set (db w))
   \<and> (p \<in> set (db w) \<longrightarrow>
        notifierCalls p (trace (processPosts E w posts)) = notifierCalls p (trace w)
        \<and> notifierCalls p (trace (processComments E w comments)) = notifierCalls p (trace w)
        \<and> notifierCalls p (trace (forLoop E n w)) = notifierCalls p (trace w)
        \<and> notifierCalls p (trace (lifetimes cfg E ns w)) = notifierCalls p (trace w)
        \<and> p \<in> set (db (lifetimes cfg E ns w)))"
  using InsertOne_Inserted [of E0 w0 p w] processPosts_keeps [of p w E posts]
    processComments_keeps [of p w E comments] forLoop_keeps [of p w E n]
    lifetimes_keeps [of p w cfg E ns]
  by blast

theorem notified_once_witness:
  "''/r/test/1'' \<in> set (db recordedWorld)
   \<and> notifierCalls ''/r/test/1'' (trace (lifetimes exampleConfig exampleEnv [2, 3] recordedWorld))
       = notifierCalls ''/r/test/1'' (trace recordedWorld)
   \<and> ''/r/test/1'' \<in> set (db (lifetimes exampleConfig exampleEnv [2, 3] recordedWorld))"
proof -
  have h: "''/r/test/1'' \<in> set (db recordedWorld)" by (simp add: recordedWorld_db)
  from notified_once [of exampleEnv emptyWorld "''/r/test/1''" recordedWorld exampleEnv "[]" "[]" 0
      exampleConfig "[2, 3]"] h
  show ?thesis by blast
qed

text \<open>
  Claim C2, as the code has it. The store holds an identifier only if a notification
  for it was delivered, and every insert into the store comes after a delivered mail
  for the same item: both are preserved by the processing of any list of posts or
  comments and by any number of iterations. Processing an item leaves its identifier
  in the store exactly when it was there before, or the lookup answered absent, a
  keyword matched, the notifier succeeded and the insert succeeded, in that order;
  when no keyword matches or the notifier fails the store is unchanged. The converse
  needs the insert to succeed: a delivered notification followed by a failed insert
  leaves the identifier out of the store.
\<close>

theorem recorded_only_after_delivery:
  "(set (db w) \<subseteq> set (delivered (trace w)) \<longrightarrow>
      set (db (processPosts E w posts)) \<subseteq> set (delivered (trace (processPosts E w posts)))
      \<and> set (db (processComments E w comments))
          \<subseteq> set (delivered (trace (processComments E w comments)))
      \<and> set (db (forLoop E n w)) \<subseteq> set (delivered (trace (forLoop E n w))))
   \<and> (recordsFollowDelivery [] (trace w) \<longrightarrow>
      recordsFollowDelivery [] (trace (processPosts E w posts))
      \<and> recordsFollowDelivery [] (trace (processComments E w comments))
      \<and> recordsFollowDelivery [] (trace (forLoop E n w)))
   \<and> (Permalink post \<in> set (db (processPost E w post)) \<longleftrightarrow>
        Permalink post \<in> set (db w)
        \<or> (\<not> findFails E (calls w)
           \<and> findKeywords (Title post @ '' '' @ Selftext post) keywords_list \<noteq> []
           \<and> \<not> sendFails E (Suc (calls w))
           \<and> \<not> insertFails E (Suc (Suc (calls w)))))
   \<and> (CommentPermalink comment \<in> set (db (processComment E w comment)) \<longleftrightarrow>
        CommentPermalink comment \<in> set (db w)
        \<or> (\<not> findFails E (calls w)
           \<and> findKeywords (Body comment) keywords_list \<noteq> []
           \<and> \<not> sendFails E (Suc (calls w))
           \<and> \<not> insertFails E (Suc (Suc (calls w)))))
   \<and> (findKeywords (Title post @ '' '' @ Selftext post) keywords_list = []
        \<or> sendFails E (Suc (calls w)) \<longrightarrow> db (processPost E w post) = db w)
   \<and> (findKeywords (Body comment) keywords_list = [] \<or> sendFails E (Suc (calls w)) \<longrightarrow>
        db (processComment E w comment) = db w)"
proof -
  have a: "set (db w) \<subseteq> set (delivered (trace w)) \<longrightarrow>
      set (db (processPosts E w posts)) \<subseteq> set (delivered (trace (processPosts E w posts)))
      \<and> set (db (processComments E w comments))
          \<subseteq> set (delivered (trace (processComments E w comments)))
      \<and> set (db (forLoop E n w)) \<subseteq> set (delivered (trace (forLoop E n w)))"
    using processPosts_inv [of w E posts] processComments_inv [of w E comments]
      forLoop_inv [of w E n] by blast
  have o: "recordsFollowDelivery [] (trace w) \<longrightarrow>
      recordsFollowDelivery [] (trace (processPosts E w posts))
      \<and> recordsFollowDelivery [] (trace (processComments E w comments))
      \<and> recordsFollowDelivery [] (trace (forLoop E n w))"
    using processPosts_order [of w E posts] processComments_order [of w E comments]
      forLoop_order [of w E n] by blast
  have d: "findKeywords (Title post @ '' '' @ Selftext post) keywords_list = []
        \<or> sendFails E (Suc (calls w)) \<longrightarrow> db (processPost E w post) = db w"
    using processPost_unrecorded [of post E w] by blast
  have e: "findKeywords (Body comment) keywords_list = [] \<or> sendFails E (Suc (calls w)) \<longrightarrow>
        db (processComment E w comment) = db w"
    using processComment_unrecorded [of comment E w] by blast
  from a o d e processPost_recorded_iff [of post E w]
    processComment_recorded_iff [of comment E w]
  show ?thesis by blast
qed

theorem recorded_only_after_delivery_witness:
  "set (db (forLoop exampleEnv 2 emptyWorld))
     \<subseteq> set (delivered (trace (forLoop exampleEnv 2 emptyWorld)))
   \<and> recordsFollowDelivery [] (trace (forLoop exampleEnv 2 emptyWorld))
   \<and> Permalink examplePost \<in> set (db (processPost exampleEnv emptyWorld examplePost))"
proof -
  have i: "set (db emptyWorld) \<subseteq> set (delivered (trace emptyWorld))
           \<and> recordsFollowDelivery [] (trace emptyWorld)"
    by (simp add: emptyWorld_def)
  have c: "\<not> findFails exampleEnv (calls emptyWorld)
           \<and> findKeywords (Title examplePost @ '' '' @ Selftext examplePost) keywords_list \<noteq> []
           \<and> \<not> sendFails exampleEnv (Suc (calls emptyWorld))
           \<and> \<not> insertFails exampleEnv (Suc (Suc (calls emptyWorld)))"
    by code_simp
  from recorded_only_after_delivery [of emptyWorld exampleEnv "[]" "[]" 2 examplePost exampleComment]
    i c
  show ?thesis by blast
qed

text \<open>
  Claim C2 as stated fails: when the insert fails after the mail was delivered, the
  item is notified and its identifier is not in the store.
\<close>

theorem delivered_but_unrecorded_counterexample:
  "\<not> (Permalink examplePost \<in> set (db (processPost insertDownEnv emptyWorld examplePost))
       \<longleftrightarrow> Permalink examplePost
             \<in> set (delivered (trace (processPost insertDownEnv emptyWorld examplePost))))"
  by code_simp

text \<open>
  Claim C4. When the lookup of an item's identifier fails with a store error, the
  processing of that item consists of the failed lookup and one printed line: the
  matcher is not run, the notifier is not called, nothing is inserted and the store is
  unchanged; the loop then goes on with the next item. This holds for posts and for
  comments.
\<close>

theorem store_error_skips_item:
  "findFails E (calls w) \<longrightarrow>
     processPost E w post =
       w\<lparr>trace := trace w @ [FindOneCall (Permalink post) FindError,
                               Print (ErrorCheckingPost (Permalink post))],
         calls := Suc (calls w)\<rparr>
     \<and> processComment E w comment =
       w\<lparr>trace := trace w @ [FindOneCall (CommentPermalink comment) FindError,
                               Print (ErrorCheckingComment (CommentPermalink comment))],
         calls := Suc (calls w)\<rparr>
     \<and> db (processPost E w post) = db w
     \<and> db (processComment E w comment) = db w
     \<and> matcherInputs (trace (processPost E w post)) = matcherInputs (trace w)
     \<and> matcherInputs (trace (processComment E w comment)) = matcherInputs (trace w)
     \<and> notifierCalls p (trace (processPost E w post)) = notifierCalls p (trace w)
     \<and> notifierCalls p (trace (processComment E w comment)) = notifierCalls p (trace w)
     \<and> processPosts E w (post # posts) =
         processPosts E
           (w\<lparr>trace := trace w @ [FindOneCall (Permalink post) FindError,
                                   Print (ErrorCheckingPost (Permalink post))],
             calls := Suc (calls w)\<rparr>) posts
     \<and> processComments E w (comment # comments) =
         processComments E
           (w\<lparr>trace := trace w @ [FindOneCall (CommentPermalink comment) FindError,
                                   Print (ErrorCheckingComment (CommentPermalink comment))],
             calls := Suc (calls w)\<rparr>) comments"
proof
  assume f: "findFails E (calls w)"
  note a = processPost_store_error [OF f, of post]
  note b = processComment_store_error [OF f, of comment]
  show "processPost E w post =
       w\<lparr>trace := trace w @ [FindOneCall (Permalink post) FindError,
                               Print (ErrorCheckingPost (Permalink post))],
         calls := Suc (calls w)\<rparr>
     \<and> processComment E w comment =
       w\<lparr>trace := trace w @ [FindOneCall (CommentPermalink comment) FindError,
                               Print (ErrorCheckingComment (CommentPermalink comment))],
         calls := Suc (calls w)\<rparr>
     \<and> db (processPost E w post) = db w
     \<and> db (processComment E w comment) = db w
     \<and> matcherInputs (trace (processPost E w post)) = matcherInputs (trace w)
     \<and> matcherInputs (trace (processComment E w comment)) = matcherInputs (trace w)
     \<and> notifierCalls p (trace (processPost E w post)) = notifierCalls p (trace w)
     \<and> notifierCalls p (trace (processComment E w comment)) = notifierCalls p (trace w)
     \<and> processPosts E w (post # posts) =
         processPosts E
           (w\<lparr>trace := trace w @ [FindOneCall (Permalink post) FindError,
                                   Print (ErrorCheckingPost (Permalink post))],
             calls := Suc (calls w)\<rparr>) posts
     \<and> processComments E w (comment # comments) =
         processComments E
           (w\<lparr>trace := trace w @ [FindOneCall (CommentPermalink comment) FindError,
                                   Print (ErrorCheckingComment (CommentPermalink comment))],
             calls := Suc (calls w)\<rparr>) comments"
    by (simp add: a b)
qed

theorem store_error_skips_item_witness:
  "processPost findDownEnv emptyWorld examplePost =
     emptyWorld\<lparr>trace := trace emptyWorld @ [FindOneCall (Permalink examplePost) FindError,
                               Print (ErrorCheckingPost (Permalink examplePost))],
         calls := Suc (calls emptyWorld)\<rparr>
   \<and> db (processPost findDownEnv emptyWorld examplePost) = db emptyWorld
   \<and> notifierCalls ''/r/test/1'' (trace (processPost findDownEnv emptyWorld examplePost))
       = notifierCalls ''/r/test/1'' (trace emptyWorld)"
proof -
  have f: "findFails findDownEnv (calls emptyWorld)"
    by (simp add: findDownEnv_def)
  from store_error_skips_item [of findDownEnv emptyWorld examplePost exampleComment
      "''/r/test/1''" "[]" "[]"] f
  show ?thesis by blast
qed



text \<open>
  Claim C8. In an iteration of the loop, when the fetch of posts fails and the fetch
  of comments succeeds, the failure is printed, no post is processed, and the iteration
  is exactly the processing of the fetched comments followed by the sleep; when the
  fetch of posts succeeds and the fetch of comments fails, the posts are processed, the
  failure is printed, and the iteration ends with the sleep; when both fail, both
  failures are printed and the iteration ends with the sleep. Every iteration reaches
  its sleep, so after \<open>n\<close> iterations the loop has slept \<open>n\<close> more times, for every
  \<open>n\<close> and every behaviour of the environment; once start-up has succeeded the
  process is in the loop after any number of iterations.
\<close>

theorem fetch_failure_isolated:
  "(fetchPosts E (emit (Print FetchingNewData) w) postEndpoint = ((ps, Some e), w1)
      \<and> fetchComments E (emit (Print (ErrorFetchingPosts e)) w1) commentEndpoint
          = ((cs, None), w3)
      \<longrightarrow> cycle E w = emit Sleep (processComments E w3 cs))
   \<and> (fetchPosts E (emit (Print FetchingNewData) w) postEndpoint = ((ps, None), w1)
      \<and> fetchComments E (processPosts E w1 ps) commentEndpoint = ((cs, Some e), w3)
      \<longrightarrow> cycle E w = emit Sleep (emit (Print (ErrorFetchingComments e)) w3))
   \<and> (fetchPosts E (emit (Print FetchingNewData) w) postEndpoint = ((ps, Some e), w1)
      \<and> fetchComments E (emit (Print (ErrorFetchingPosts e)) w1) commentEndpoint
          = ((cs, Some e'), w3)
      \<longrightarrow> cycle E w = emit Sleep (emit (Print (ErrorFetchingComments e')) w3))
   \<and> sleeps (trace (cycle E w)) = Suc (sleeps (trace w))
   \<and> sleeps (trace (forLoop E n w)) = sleeps (trace w) + n
   \<and> (startup cfg E w = (None, w0) \<longrightarrow> main cfg E n w = (Looping, forLoop E n w0))"
  using cycle_posts_fail [of E w ps e w1 cs w3] cycle_comments_fail [of E w ps w1 cs e w3]
    cycle_both_fail [of E w ps e w1 cs e' w3] cycle_sleeps [of E w] forLoop_sleeps [of E n w]
    main_loops [of cfg E w w0 n]
  by blast

lemma postsDown_fetchPosts:
  "fetchPosts postsDownEnv (emit (Print FetchingNewData) emptyWorld) postEndpoint
     = (([], Some ErrExecutingRequest),
        \<lparr>db = [], trace = [Print FetchingNewData, HttpExchange postEndpoint DoError],
          calls = 1\<rparr>)"
  by (simp add: fetchPosts_def postsDownEnv_def exampleEnv_def emptyWorld_def emit_def
      called_def Let_def)

lemma postsDown_fetchComments:
  "fetchComments postsDownEnv
     (emit (Print (ErrorFetchingPosts ErrExecutingRequest))
        \<lparr>db = [], trace = [Print FetchingNewData, HttpExchange postEndpoint DoError],
          calls = 1\<rparr>) commentEndpoint
     = (([exampleComment], None),
        \<lparr>db = [],
          trace = [Print FetchingNewData, HttpExchange postEndpoint DoError,
                   Print (ErrorFetchingPosts ErrExecutingRequest),
                   HttpExchange commentEndpoint (Response 200 ''{}'')],
          calls = 2\<rparr>)"
proof -
  have ne: "commentEndpoint \<noteq> postEndpoint"
    by (simp add: commentEndpoint_def postEndpoint_def)
  then show ?thesis
    by (simp add: fetchComments_def postsDownEnv_def exampleEnv_def emit_def
      called_def Let_def StatusOK_def)
qed

theorem fetch_failure_isolated_witness:
  "cycle postsDownEnv emptyWorld =
     emit Sleep
       (processComments postsDownEnv
          \<lparr>db = [],
            trace = [Print FetchingNewData, HttpExchange postEndpoint DoError,
                     Print (ErrorFetchingPosts ErrExecutingRequest),
                     HttpExchange commentEndpoint (Response 200 ''{}'')],
            calls = 2\<rparr>
          [exampleComment])
   \<and> sleeps (trace (forLoop postsDownEnv 5 emptyWorld)) = sleeps (trace emptyWorld) + 5"
  using fetch_failure_isolated [of postsDownEnv emptyWorld "[]" ErrExecutingRequest
      "\<lparr>db = [], trace = [Print FetchingNewData, HttpExchange postEndpoint DoError],
          calls = 1\<rparr>"
      "[exampleComment]"
      "\<lparr>db = [],
          trace = [Print FetchingNewData, HttpExchange postEndpoint DoError,
                   Print (ErrorFetchingPosts ErrExecutingRequest),
                   HttpExchange commentEndpoint (Response 200 ''{}'')],
          calls = 2\<rparr>" ErrExecutingRequest 5 exampleConfig emptyWorld]
    postsDown_fetchPosts postsDown_fetchComments
  by blast

text \<open>
  Claim C9. A fetch returns an error exactly when the request cannot be created or
  executed (transport failure), the response status is not 200 OK, or the payload does
  not decode; with an error it returns no items. Otherwise it returns, without error,
  the items of the decoded listing in the listing's order, which is the empty sequence
  for an empty listing. This holds for posts and for comments.
\<close>

theorem fetch_error_exactly:
  "(snd (fst (fetchPosts E w url)) \<noteq> None \<longleftrightarrow>
      httpDo E (calls w) url = NewRequestError \<or> httpDo E (calls w) url = DoError
      \<or> (\<exists>status payload. httpDo E (calls w) url = Response status payload
            \<and> (status \<noteq> StatusOK \<or> decodePosts E payload = None)))
   \<and> (snd (fst (fetchComments E w url)) \<noteq> None \<longleftrightarrow>
      httpDo E (calls w) url = NewRequestError \<or> httpDo E (calls w) url = DoError
      \<or> (\<exists>status payload. httpDo E (calls w) url = Response status payload
            \<and> (status \<noteq> StatusOK \<or> decodeComments E payload = None)))
   \<and> (snd (fst (fetchPosts E w url)) \<noteq> None \<longrightarrow> fst (fst (fetchPosts E w url)) = [])
   \<and> (snd (fst (fetchComments E w url)) \<noteq> None \<longrightarrow> fst (fst (fetchComments E w url)) = [])
   \<and> (httpDo E (calls w) url = Response StatusOK payload
        \<and> decodePosts E payload = Some presp \<longrightarrow>
      fst (fetchPosts E w url) = (map PostChildData (PostChildren (PostData presp)), None))
   \<and> (httpDo E (calls w) url = Response StatusOK payload
        \<and> decodeComments E payload = Some cresp \<longrightarrow>
      fst (fetchComments E w url)
        = (map CommentChildData (CommentChildren (CommentData cresp)), None))
   \<and> (httpDo E (calls w) url = Response StatusOK payload
        \<and> decodePosts E payload = Some presp \<and> PostChildren (PostData presp) = [] \<longrightarrow>
      fst (fetchPosts E w url) = ([], None))"
proof -
  have z: "httpDo E (calls w) url = Response StatusOK payload
        \<and> decodePosts E payload = Some presp \<and> PostChildren (PostData presp) = [] \<longrightarrow>
      fst (fetchPosts E w url) = ([], None)"
    using fetchPosts_ok [of E w url payload presp] by auto
  from z fetchPosts_error_iff [of E w url] fetchComments_error_iff [of E w url]
    fetchPosts_error_no_items [of E w url] fetchComments_error_no_items [of E w url]
    fetchPosts_ok [of E w url payload presp] fetchComments_ok [of E w url payload cresp]
  show ?thesis by blast
qed

theorem fetch_error_exactly_witness:
  "fst (fetchPosts exampleEnv emptyWorld postEndpoint) = ([examplePost], None)
   \<and> snd (fst (fetchPosts postsDownEnv emptyWorld postEndpoint)) \<noteq> None
   \<and> fst (fst (fetchPosts postsDownEnv emptyWorld postEndpoint)) = []"
proof -
  have a: "httpDo exampleEnv (calls emptyWorld) postEndpoint = Response StatusOK ''{}''
        \<and> decodePosts exampleEnv ''{}''
            = Some \<lparr>PostData = \<lparr>PostChildren = [\<lparr>PostChildData = examplePost\<rparr>]\<rparr>\<rparr>"
    by (simp add: exampleEnv_def StatusOK_def)
  have b: "httpDo postsDownEnv (calls emptyWorld) postEndpoint = DoError"
    by (simp add: postsDownEnv_def)
  from fetch_error_exactly [of exampleEnv emptyWorld postEndpoint "''{}''"
      "\<lparr>PostData = \<lparr>PostChildren = [\<lparr>PostChildData = examplePost\<rparr>]\<rparr>\<rparr>"
      "\<lparr>CommentData = \<lparr>CommentChildren = []\<rparr>\<rparr>"] a
  have 1: "fst (fetchPosts exampleEnv emptyWorld postEndpoint) = ([examplePost], None)"
    by simp
  from fetch_error_exactly [of postsDownEnv emptyWorld postEndpoint] b
  have 2: "snd (fst (fetchPosts postsDownEnv emptyWorld postEndpoint)) \<noteq> None"
    and 3: "fst (fst (fetchPosts postsDownEnv emptyWorld postEndpoint)) = []"
    by blast+
  from 1 2 3 show ?thesis by blast
qed








end
